theory Spec2Isabelle
  imports Complex_Main "HOL-Library.Multiset"
begin

section \<open>Strings and the string built-ins the utilities call\<close>

text \<open>
  A JavaScript string is a sequence of UTF-16 code units. A \<^typ>\<open>char\<close> stands for one code
  unit below 256 (the Latin-1 range), and \<^typ>\<open>string\<close> for a JavaScript string made of
  such code units; \<open>length\<close> is then JavaScript's \<open>.length\<close>. The built-ins below are
  written out on that range.
\<close>

definition code :: "char \<Rightarrow> nat" where
  "code c = of_char c"

text \<open>The regular-expression ranges \<open>[a-z]\<close>, \<open>[A-Z]\<close> and \<open>\d\<close> (which is \<open>[0-9]\<close>).\<close>

definition lowerAZ :: "char \<Rightarrow> bool" where
  "lowerAZ c = (97 \<le> code c \<and> code c \<le> 122)"

definition upperAZ :: "char \<Rightarrow> bool" where
  "upperAZ c = (65 \<le> code c \<and> code c \<le> 90)"

definition digit09 :: "char \<Rightarrow> bool" where
  "digit09 c = (48 \<le> code c \<and> code c \<le> 57)"

text \<open>The negated class \<open>[^a-zA-Z0-9]\<close> matches exactly the characters that are not these.\<close>

definition alnum :: "char \<Rightarrow> bool" where
  "alnum c = (lowerAZ c \<or> upperAZ c \<or> digit09 c)"

text \<open>
  White space as \<open>String.prototype.trim\<close> sees it, on code units below 256: tab, line feed,
  vertical tab, form feed, carriage return, space and the no-break space.
\<close>

definition whiteSpace :: "char \<Rightarrow> bool" where
  "whiteSpace c = (code c \<in> {9, 10, 11, 12, 13, 32, 160})"

definition trim :: "string \<Rightarrow> string" where
  "trim s = rev (dropWhile whiteSpace (rev (dropWhile whiteSpace s)))"

text \<open>
  \<open>s.substring(0, e)\<close> for an integer \<open>e\<close>: an end below 0 counts as 0, an end beyond the
  string as its length.
\<close>

definition substring0 :: "string \<Rightarrow> int \<Rightarrow> string" where
  "substring0 s e = take (nat e) s"

text \<open>
  \<open>String.prototype.toLowerCase\<close>: on code units below 256 the letters with a lower-case
  partner are A to Z and the Latin-1 capitals 192 to 222 without the multiplication sign
  215; the partner is 32 higher.
\<close>

definition toLowerCaseChar :: "char \<Rightarrow> char" where
  "toLowerCaseChar c =
     (if upperAZ c \<or> (192 \<le> code c \<and> code c \<le> 222 \<and> code c \<noteq> 215)
      then char_of (code c + 32) else c)"

definition toLowerCase :: "string \<Rightarrow> string" where
  "toLowerCase s = map toLowerCaseChar s"

text \<open>\<open>s.includes(t)\<close>: \<open>t\<close> occurs in \<open>s\<close> as a contiguous run.\<close>

fun startsWith :: "string \<Rightarrow> string \<Rightarrow> bool" where
  "startsWith s [] = True"
| "startsWith [] (y # t) = False"
| "startsWith (x # s) (y # t) = (x = y \<and> startsWith s t)"

fun includes_str :: "string \<Rightarrow> string \<Rightarrow> bool" where
  "includes_str [] t = startsWith [] t"
| "includes_str (x # s) t = (startsWith (x # s) t \<or> includes_str s t)"

text \<open>
  \<open>s[i]\<close> appended to a string with \<open>+=\<close>: the one-character string at an index inside
  \<open>s\<close>, and the text \<open>undefined\<close> at any other index.
\<close>

definition charAt :: "string \<Rightarrow> int \<Rightarrow> string" where
  "charAt s i = (if 0 \<le> i \<and> i < int (length s) then [s ! nat i] else ''undefined'')"

section \<open>Regular expressions of the strength analysis\<close>

text \<open>
  The dot of a regular expression without the \<open>s\<close> flag matches every code unit except the
  line terminators; below 256 these are line feed and carriage return.
\<close>

definition lineTerminator :: "char \<Rightarrow> bool" where
  "lineTerminator c = (code c = 10 \<or> code c = 13)"

text \<open>
  \<open>/(.)\1{2,}/\<close>: a code unit the dot matches, followed at once by two or more copies of
  itself.
\<close>

fun repeatsAt :: "string \<Rightarrow> bool" where
  "repeatsAt (a # b # c # s) = (\<not> lineTerminator a \<and> b = a \<and> c = a)"
| "repeatsAt s = False"

fun testRepeats :: "string \<Rightarrow> bool" where
  "testRepeats [] = False"
| "testRepeats (x # s) = (repeatsAt (x # s) \<or> testRepeats s)"

text \<open>
  The \<open>i\<close> flag compares canonical code units: the upper-case partner where it is a single
  code unit, and never an ASCII one for a code unit from 128 on. Below 256 the letters a to
  z and 224 to 254 without the division sign 247 move down by 32. The micro sign 181 and
  the letter 255 have partners from 256 on, which no other code unit below 256 shares, and
  the sharp s 223 has none of one code unit; they stay, as all the others do, which leaves
  the comparison of two code units below 256 as the engine makes it.
\<close>

definition canonicalize :: "char \<Rightarrow> char" where
  "canonicalize c =
     (if lowerAZ c \<or> (224 \<le> code c \<and> code c \<le> 254 \<and> code c \<noteq> 247)
      then char_of (code c - 32) else c)"

definition sequencePatterns :: "string list" where
  "sequencePatterns =
     [''abc'', ''bcd'', ''cde'', ''def'', ''efg'', ''fgh'', ''ghi'', ''hij'', ''ijk'',
      ''jkl'', ''klm'', ''lmn'', ''mno'', ''nop'', ''opq'', ''pqr'', ''qrs'', ''rst'',
      ''stu'', ''tuv'', ''uvw'', ''vwx'', ''wxy'', ''xyz'',
      ''012'', ''123'', ''234'', ''345'', ''456'', ''567'', ''678'', ''789'']"

text \<open>
  \<open>/(abc|bcd|...|789)/i\<close>: one of the alternatives occurs in the string, canonical code
  units compared.
\<close>

definition testSequences :: "string \<Rightarrow> bool" where
  "testSequences s =
     list_ex (\<lambda>p. includes_str (map canonicalize s) (map canonicalize p)) sequencePatterns"

definition symbolClass :: string where
  "symbolClass = ''!@#$%^&*()_+-=[]{}|;:,.<>?''"

section \<open>Character sets\<close>

definition CHARACTER_SETS_lowercase :: string where
  "CHARACTER_SETS_lowercase = ''abcdefghijklmnopqrstuvwxyz''"

definition CHARACTER_SETS_uppercase :: string where
  "CHARACTER_SETS_uppercase = ''ABCDEFGHIJKLMNOPQRSTUVWXYZ''"

definition CHARACTER_SETS_numbers :: string where
  "CHARACTER_SETS_numbers = ''0123456789''"

definition CHARACTER_SETS_symbols :: string where
  "CHARACTER_SETS_symbols = ''!@#$%^&*()_+-=[]{}|;:,.<>?''"

section \<open>Randomness and the engine's sort\<close>

text \<open>
  \<open>Math.random()\<close> is read from a sequence of numbers, the \<open>n\<close>-th call returning
  \<open>random n\<close>; the language promises \<open>0 \<le> random n < 1\<close>, which theorems that need it
  assume as \<open>unitInterval random\<close>. The numbers are rationals and the product with the
  length is exact; the index drawn is below the length either way.
\<close>

type_synonym random = "nat \<Rightarrow> rat"

definition unitInterval :: "random \<Rightarrow> bool" where
  "unitInterval random = (\<forall>n. 0 \<le> random n \<and> random n < 1)"

text \<open>\<open>Math.floor(Math.random() * s.length)\<close> for the number \<open>u\<close> that the call returned.\<close>

definition randomIndex :: "rat \<Rightarrow> string \<Rightarrow> int" where
  "randomIndex u s = \<lfloor>u * of_nat (length s)\<rfloor>"

text \<open>
  \<open>Array.prototype.sort\<close> belongs to the engine, not to the repository, and with a
  comparator that answers at random the order it produces is implementation-defined. It is
  a parameter \<open>arraySort\<close> of the generator: \<open>arraySort cmp xs\<close> is the array \<open>xs\<close> sorted
  when the \<open>k\<close>-th call of the comparator returns \<open>cmp k\<close>. What the language fixes is that
  the result holds the same elements, \<open>rearranges arraySort\<close>.
\<close>

type_synonym sorter = "(nat \<Rightarrow> rat) \<Rightarrow> string \<Rightarrow> string"

definition rearranges :: "sorter \<Rightarrow> bool" where
  "rearranges arraySort = (\<forall>cmp xs. mset (arraySort cmp xs) = mset xs)"

text \<open>
  One such engine, for concrete runs: insertion from the left, the new element placed
  before the first element the comparator puts it in front of.
\<close>

fun insertWith :: "(nat \<Rightarrow> rat) \<Rightarrow> nat \<Rightarrow> char \<Rightarrow> string \<Rightarrow> string \<times> nat" where
  "insertWith cmp k x [] = ([x], k)"
| "insertWith cmp k x (y # ys) =
     (if cmp k < 0 then (x # y # ys, Suc k)
      else (y # fst (insertWith cmp (Suc k) x ys), snd (insertWith cmp (Suc k) x ys)))"

fun insertionSortFrom :: "(nat \<Rightarrow> rat) \<Rightarrow> nat \<Rightarrow> string \<Rightarrow> string \<Rightarrow> string" where
  "insertionSortFrom cmp k acc [] = acc"
| "insertionSortFrom cmp k acc (x # xs) =
     insertionSortFrom cmp (snd (insertWith cmp k x acc)) (fst (insertWith cmp k x acc)) xs"

definition insertionSort :: sorter where
  "insertionSort cmp xs = insertionSortFrom cmp 0 [] xs"

section \<open>generatePassword\<close>

record options =
  useLower :: bool
  useUpper :: bool
  useNumber :: bool
  useSymbol :: bool

text \<open>
  The argument object of \<open>generatePassword\<close>; its field \<open>length\<close> is \<open>length'\<close> here, an
  integer of any sign.
\<close>

record request = options +
  length' :: int
  keyword :: string

datatype error = Error string

text \<open>The keyword as it goes into the password (the block under "Process keyword if provided").\<close>

definition processedKeyword :: "int \<Rightarrow> string \<Rightarrow> string" where
  "processedKeyword len kw =
     (if kw \<noteq> [] \<and> trim kw \<noteq> [] then
        (let processed = filter alnum (trim kw);
             maxKeywordLength = len div 3
         in if int (length processed) > maxKeywordLength
            then substring0 processed maxKeywordLength else processed)
      else [])"

definition charsetOf :: "'a options_scheme \<Rightarrow> string" where
  "charsetOf opts =
     (if useLower opts then CHARACTER_SETS_lowercase else []) @
     (if useUpper opts then CHARACTER_SETS_uppercase else []) @
     (if useNumber opts then CHARACTER_SETS_numbers else []) @
     (if useSymbol opts then CHARACTER_SETS_symbols else [])"

definition selectedSets :: "'a options_scheme \<Rightarrow> string list" where
  "selectedSets opts =
     (if useLower opts then [CHARACTER_SETS_lowercase] else []) @
     (if useUpper opts then [CHARACTER_SETS_uppercase] else []) @
     (if useNumber opts then [CHARACTER_SETS_numbers] else []) @
     (if useSymbol opts then [CHARACTER_SETS_symbols] else [])"

text \<open>
  The \<open>forEach\<close> over the selected sets: one random character of each, appended to the
  password; \<open>n\<close> counts the calls of \<open>Math.random\<close> made so far.
\<close>

fun seedEach :: "random \<Rightarrow> nat \<Rightarrow> string list \<Rightarrow> string \<Rightarrow> string \<times> nat" where
  "seedEach random n [] password = (password, n)"
| "seedEach random n (cs # sets) password =
     seedEach random (Suc n) sets (password @ charAt cs (randomIndex (random n) cs))"

text \<open>The \<open>for\<close> loop that fills the rest: \<open>i\<close> runs from the password's length up to \<open>len\<close>.\<close>

function fillRest :: "random \<Rightarrow> nat \<Rightarrow> string \<Rightarrow> int \<Rightarrow> int \<Rightarrow> string \<Rightarrow> string \<times> nat" where
  "fillRest random n charset len i password =
     (if i < len
      then fillRest random (Suc n) charset len (i + 1)
             (password @ charAt charset (randomIndex (random n) charset))
      else (password, n))"
  by pat_completeness auto
termination
  by (relation "measure (\<lambda>(random, n, charset, len, i, password). nat (len - i))") auto

declare fillRest.simps [simp del]

text \<open>The password before the final shuffle, with the number of random calls made.\<close>

definition assemble :: "random \<Rightarrow> request \<Rightarrow> string \<times> nat" where
  "assemble random req =
     (let seeded = seedEach random 0 (selectedSets req) [];
          pk = processedKeyword (length' req) (keyword req);
          password = (if pk \<noteq> [] then fst seeded @ pk else fst seeded)
      in fillRest random (snd seeded) (charsetOf req) (length' req)
           (int (length password)) password)"

definition generatePassword :: "sorter \<Rightarrow> random \<Rightarrow> request \<Rightarrow> error + string" where
  "generatePassword arraySort random req =
     (if charsetOf req = []
      then Inl (Error ''At least one character type must be selected'')
      else (let built = assemble random req
            in Inr (arraySort (\<lambda>k. random (snd built + k) - 1 / 2) (fst built))))"

section \<open>calculatePasswordStrength\<close>

text \<open>
  \<open>keyword && ...\<close> is the keyword itself when the keyword is the empty string, and the
  boolean on the right otherwise, so the flag \<open>hasKeyword\<close> holds a string or a boolean.
\<close>

datatype jsvalue = JString string | JBoolean bool

fun truthy :: "jsvalue \<Rightarrow> bool" where
  "truthy (JString s) = (s \<noteq> [])"
| "truthy (JBoolean b) = b"

text \<open>The object \<open>analysis\<close>; its field \<open>length\<close> is \<open>length_a\<close> here.\<close>

record analysis =
  length_a :: nat
  hasLower :: bool
  hasUpper :: bool
  hasNumber :: bool
  hasSymbol :: bool
  hasRepeats :: bool
  hasSequences :: bool
  hasKeyword :: jsvalue
  keywordLength :: nat

text \<open>The four emoji of the source: the red, orange, yellow and green circle.\<close>

datatype emoji = RedCircle | OrangeCircle | YellowCircle | GreenCircle

record report =
  score :: int
  strength :: string
  emoji :: emoji
  color :: string
  analysis :: analysis

definition analyse :: "string \<Rightarrow> string \<Rightarrow> analysis" where
  "analyse password kw =
     \<lparr> length_a = length password,
       hasLower = list_ex lowerAZ password,
       hasUpper = list_ex upperAZ password,
       hasNumber = list_ex digit09 password,
       hasSymbol = list_ex (\<lambda>c. c \<in> set symbolClass) password,
       hasRepeats = testRepeats password,
       hasSequences = testSequences password,
       hasKeyword = (if kw = [] then JString kw
                     else JBoolean (includes_str (toLowerCase password) (toLowerCase kw))),
       keywordLength = (if kw \<noteq> [] then length kw else 0) \<rparr>"

text \<open>The running \<open>score\<close>, statement by statement, up to the clamp.\<close>

definition points :: "analysis \<Rightarrow> int" where
  "points a =
     (let score = 0;
          score = (if length_a a \<ge> 8 then score + 5 else score);
          score = (if length_a a \<ge> 12 then score + 5 else score);
          score = (if length_a a \<ge> 16 then score + 5 else score);
          score = (if length_a a \<ge> 20 then score + 5 else score);
          score = (if hasLower a then score + 2 else score);
          score = (if hasUpper a then score + 2 else score);
          score = (if hasNumber a then score + 2 else score);
          score = (if hasSymbol a then score + 3 else score);
          score = (if truthy (hasKeyword a)
                   then score + min 3 (int (keywordLength a)) else score);
          score = (if hasRepeats a then score - 3 else score);
          score = (if hasSequences a then score - 2 else score);
          score = (if length_a a < 8 then score - 10 else score)
      in max 0 (min 50 score))"

text \<open>The chain that determines the strength level from the clamped score.\<close>

definition strengthLevel :: "int \<Rightarrow> string \<times> emoji \<times> string" where
  "strengthLevel sc =
     (if sc < 10 then (''Very Weak'', RedCircle, ''danger'')
      else if sc < 20 then (''Weak'', OrangeCircle, ''warning'')
      else if sc < 30 then (''Fair'', YellowCircle, ''warning'')
      else if sc < 40 then (''Good'', GreenCircle, ''success'')
      else (''Strong'', GreenCircle, ''success''))"

definition calculatePasswordStrength :: "string \<Rightarrow> options \<Rightarrow> string \<Rightarrow> report" where
  "calculatePasswordStrength password opts kw =
     (let a = analyse password kw;
          score = points a;
          level = strengthLevel score
      in \<lparr> score = score, strength = fst level, emoji = fst (snd level),
           color = snd (snd level), analysis = a \<rparr>)"

section \<open>The score as the specification words it\<close>

text \<open>
  The specification's repeat rule: some character, whichever it is, stands three or more
  times in a row.
\<close>

fun anyRepeat :: "string \<Rightarrow> bool" where
  "anyRepeat (a # b # c # s) = ((b = a \<and> c = a) \<or> anyRepeat (b # c # s))"
| "anyRepeat s = False"

text \<open>
  The specification's sequence rule: with the letters of the password folded to lower
  case, three characters in a row are three neighbours of the alphabet from a to z or of
  the digits from 0 to 9.
\<close>

fun windows3 :: "string \<Rightarrow> string list" where
  "windows3 (a # b # c # s) = [a, b, c] # windows3 (b # c # s)"
| "windows3 s = []"

definition claimedSequence :: "string \<Rightarrow> bool" where
  "claimedSequence password =
     list_ex (\<lambda>w. includes_str (toLowerCase password) w)
       (windows3 CHARACTER_SETS_lowercase @ windows3 CHARACTER_SETS_numbers)"

text \<open>
  The specification's sum: the length thresholds, the class bonuses, the keyword bonus and
  the three penalties, clamped to the range from 0 to 50. A lower-case letter, an
  upper-case letter, a digit and a symbol are the characters of the four character sets.
\<close>

definition claimedScore :: "string \<Rightarrow> string \<Rightarrow> int" where
  "claimedScore password kw =
     max 0 (min 50
       ((if length password \<ge> 8 then 5 else 0)
        + (if length password \<ge> 12 then 5 else 0)
        + (if length password \<ge> 16 then 5 else 0)
        + (if length password \<ge> 20 then 5 else 0)
        + (if list_ex (\<lambda>c. c \<in> set CHARACTER_SETS_lowercase) password then 2 else 0)
        + (if list_ex (\<lambda>c. c \<in> set CHARACTER_SETS_uppercase) password then 2 else 0)
        + (if list_ex (\<lambda>c. c \<in> set CHARACTER_SETS_numbers) password then 2 else 0)
        + (if list_ex (\<lambda>c. c \<in> set CHARACTER_SETS_symbols) password then 3 else 0)
        + (if includes_str (toLowerCase password) (toLowerCase kw)
           then min 3 (int (length kw)) else 0)
        - (if anyRepeat password then 3 else 0)
        - (if claimedSequence password then 2 else 0)
        - (if length password < 8 then 10 else 0)))"

section \<open>A concrete run\<close>

text \<open>A sequence of random numbers for concrete runs: 0, 1/7, ..., 6/7, and again.\<close>

definition exampleRandom :: random where
  "exampleRandom n = of_nat (n mod 7) / 7"

section \<open>Counting the outcomes of the shuffle\<close>

text \<open>
  The comparator of the final sort is \<open>Math.random() - 0.5\<close>: negative for a draw below
  1/2, zero or positive for a draw from 1/2 on, and a draw falls in either half equally
  often. \<open>signDraw\<close> picks one draw of each half.
\<close>

definition signDraw :: "bool \<Rightarrow> rat" where
  "signDraw negative = (if negative then 1 / 4 else 3 / 4)"

text \<open>
  The sequence of draws that starts with the draws \<open>first\<close> (they seed and pad), goes on
  with one draw for each of the given comparator signs, and stays in the upper half after
  them.
\<close>

definition drawsOf :: "rat list \<Rightarrow> bool list \<Rightarrow> random" where
  "drawsOf first signs n =
     (if n < length first then first ! n
      else if n - length first < length signs then signDraw (signs ! (n - length first))
      else 3 / 4)"

text \<open>
  Of the \<open>2 ^ K\<close> sequences of \<open>K\<close> comparator signs, the number on which the generator
  returns the password \<open>pw\<close>. For an engine whose sort calls the comparator at most \<open>K\<close>
  times and reads its sign, this number over \<open>2 ^ K\<close> is the probability of \<open>pw\<close>, so a
  uniform shuffle returns every arrangement equally often.
\<close>

definition timesReturned :: "sorter \<Rightarrow> rat list \<Rightarrow> request \<Rightarrow> nat \<Rightarrow> string \<Rightarrow> nat" where
  "timesReturned arraySort first req K pw =
     length (filter (\<lambda>signs. generatePassword arraySort (drawsOf first signs) req = Inr pw)
       (List.n_lists K [True, False]))"

section \<open>Properties of the generator's steps\<close>

lemma randomIndex_range:
  assumes "0 \<le> u" "u < 1" "s \<noteq> []"
  shows "0 \<le> randomIndex u s \<and> randomIndex u s < int (length s)"
proof -
  have pos: "(0::rat) < of_nat (length s)" using assms(3) by simp
  have "0 \<le> u * of_nat (length s)" using assms(1) by simp
  then have lo: "0 \<le> randomIndex u s" by (simp add: randomIndex_def)
  have "u * of_nat (length s) < 1 * of_nat (length s)"
    using assms(2) pos by (rule mult_strict_right_mono)
  then have "u * of_nat (length s) < of_int (int (length s))" by simp
  then have "randomIndex u s < int (length s)"
    unfolding randomIndex_def by (simp only: floor_less_iff)
  with lo show ?thesis by simp
qed

lemma charAt_member:
  assumes "0 \<le> u" "u < 1" "s \<noteq> []"
  shows "\<exists>c. c \<in> set s \<and> charAt s (randomIndex u s) = [c]"
proof -
  from randomIndex_range [OF assms]
  have r: "0 \<le> randomIndex u s" "randomIndex u s < int (length s)" by simp_all
  then have "nat (randomIndex u s) < length s" by simp
  then have "s ! nat (randomIndex u s) \<in> set s" by (rule nth_mem)
  with r show ?thesis by (simp add: charAt_def)
qed

lemma seedEach_shape:
  assumes "unitInterval random" "\<forall>cs \<in> set sets. cs \<noteq> []"
  shows "\<exists>seeds. seedEach random n sets password = (password @ seeds, n + length sets)
           \<and> list_all2 (\<lambda>c cs. c \<in> set cs) seeds sets"
  using assms(2)
proof (induction sets arbitrary: n password)
  case Nil
  then show ?case by simp
next
  case (Cons cs sets)
  from assms(1) have u: "0 \<le> random n" "random n < 1" by (simp_all add: unitInterval_def)
  from Cons.prems have ne: "cs \<noteq> []" by simp
  from charAt_member [OF u ne] obtain c where
    c: "c \<in> set cs" "charAt cs (randomIndex (random n) cs) = [c]" by blast
  from Cons.prems have "\<forall>cs \<in> set sets. cs \<noteq> []" by simp
  from Cons.IH [OF this, of "Suc n" "password @ [c]"] obtain seeds where
    s: "seedEach random (Suc n) sets (password @ [c])
          = ((password @ [c]) @ seeds, Suc n + length sets)"
       "list_all2 (\<lambda>c cs. c \<in> set cs) seeds sets" by blast
  have "seedEach random n (cs # sets) password
          = (password @ (c # seeds), n + length (cs # sets))"
    using c s by simp
  moreover have "list_all2 (\<lambda>c cs. c \<in> set cs) (c # seeds) (cs # sets)"
    using c s by simp
  ultimately show ?case by blast
qed

lemma fillRest_shape:
  assumes "unitInterval random" "charset \<noteq> []"
  shows "\<exists>pad. fillRest random n charset len i password = (password @ pad, n + length pad)
           \<and> set pad \<subseteq> set charset \<and> length pad = nat (len - i)"
  using assms
proof (induction random n charset len i password rule: fillRest.induct)
  case (1 random n charset len i password)
  show ?case
  proof (cases "i < len")
    case False
    then show ?thesis by (simp add: fillRest.simps [of random n charset len i password])
  next
    case True
    from "1.prems" have u: "0 \<le> random n" "random n < 1" by (simp_all add: unitInterval_def)
    from charAt_member [OF u "1.prems"(2)] obtain c where
      c: "c \<in> set charset" "charAt charset (randomIndex (random n) charset) = [c]" by blast
    from "1.IH" [OF True "1.prems"] c(2) obtain pad where
      p: "fillRest random (Suc n) charset len (i + 1) (password @ [c])
            = ((password @ [c]) @ pad, Suc n + length pad)"
         "set pad \<subseteq> set charset" "length pad = nat (len - (i + 1))" by auto
    have "fillRest random n charset len i password
            = (password @ (c # pad), n + length (c # pad))"
      using True c(2) p(1) by (simp add: fillRest.simps [of random n charset len i password])
    moreover have "set (c # pad) \<subseteq> set charset" using c(1) p(2) by simp
    moreover have "length (c # pad) = nat (len - i)" using True p(3) by simp
    ultimately show ?thesis by blast
  qed
qed

lemma selectedSets_nonempty: "\<forall>cs \<in> set (selectedSets opts). cs \<noteq> []"
  by (auto simp add: selectedSets_def CHARACTER_SETS_lowercase_def CHARACTER_SETS_uppercase_def
      CHARACTER_SETS_numbers_def CHARACTER_SETS_symbols_def split: if_splits)

lemma selectedSets_charset:
  "cs \<in> set (selectedSets opts) \<Longrightarrow> set cs \<subseteq> set (charsetOf opts)"
  by (auto simp add: selectedSets_def charsetOf_def split: if_splits)

lemma length_selectedSets:
  "length (selectedSets opts) =
     (if useLower opts then 1 else 0) + (if useUpper opts then 1 else 0) +
     (if useNumber opts then 1 else 0) + (if useSymbol opts then 1 else 0)"
  by (simp add: selectedSets_def)

lemma charsetOf_empty_iff:
  "(charsetOf opts = []) =
     (\<not> useLower opts \<and> \<not> useUpper opts \<and> \<not> useNumber opts \<and> \<not> useSymbol opts)"
  by (simp add: charsetOf_def CHARACTER_SETS_lowercase_def CHARACTER_SETS_uppercase_def
      CHARACTER_SETS_numbers_def CHARACTER_SETS_symbols_def)

text \<open>
  The password before the shuffle: one character of each selected set, in the order of
  the sets, then the processed keyword, then characters of the whole charset, as many as
  the requested length still leaves room for.
\<close>

lemma assemble_shape:
  assumes "unitInterval random" "charsetOf req \<noteq> []"
  shows "\<exists>seeds pad. fst (assemble random req) =
            seeds @ processedKeyword (length' req) (keyword req) @ pad
          \<and> list_all2 (\<lambda>c cs. c \<in> set cs) seeds (selectedSets req)
          \<and> set pad \<subseteq> set (charsetOf req)
          \<and> length pad = nat (length' req
               - int (length seeds + length (processedKeyword (length' req) (keyword req))))"
proof -
  from seedEach_shape [OF assms(1) selectedSets_nonempty, where n = 0 and password = "[]"
      and opts1 = req] obtain seeds where
    s: "seedEach random 0 (selectedSets req) [] = (seeds, length (selectedSets req))"
       "list_all2 (\<lambda>c cs. c \<in> set cs) seeds (selectedSets req)" by auto
  define pk where "pk = processedKeyword (length' req) (keyword req)"
  from fillRest_shape [OF assms, where n = "length (selectedSets req)" and len = "length' req"
      and i = "int (length (seeds @ pk))" and password = "seeds @ pk"] obtain pad where
    p: "fst (fillRest random (length (selectedSets req)) (charsetOf req) (length' req)
         (int (length (seeds @ pk))) (seeds @ pk)) = (seeds @ pk) @ pad"
       "set pad \<subseteq> set (charsetOf req)"
       "length pad = nat (length' req - int (length (seeds @ pk)))" by auto
  have same: "(if pk \<noteq> [] then seeds @ pk else seeds) = seeds @ pk" by simp
  have "fst (assemble random req) = seeds @ pk @ pad"
    using s(1) p(1) unfolding assemble_def Let_def pk_def [symmetric]
    by (simp only: fst_conv snd_conv same append_assoc)
  with s(2) p(2,3) show ?thesis unfolding pk_def by auto
qed

lemma insertWith_mset: "mset (fst (insertWith cmp k x ys)) = add_mset x (mset ys)"
  by (induction ys arbitrary: k) simp_all

lemma insertionSortFrom_mset: "mset (insertionSortFrom cmp k acc xs) = mset acc + mset xs"
  by (induction xs arbitrary: k acc) (simp_all add: insertWith_mset)

lemma rearranges_insertionSort: "rearranges insertionSort"
  by (simp add: rearranges_def insertionSort_def insertionSortFrom_mset)

text \<open>
  Whatever the engine's sort does with the random comparator, the password returned is a
  rearrangement of the assembled one.
\<close>

lemma generatePassword_rearrangement:
  assumes "rearranges arraySort" "charsetOf req \<noteq> []"
  shows "\<exists>pw. generatePassword arraySort random req = Inr pw
           \<and> mset pw = mset (fst (assemble random req))"
  using assms by (simp add: generatePassword_def Let_def rearranges_def)

text \<open>
  The final shuffle: the password returned holds exactly the characters of the sequence
  built before it, which is one seeded character per selected set, then the processed
  keyword, then the padding.
\<close>

lemma generatePassword_shuffles_built_sequence:
  assumes "unitInterval random" and "rearranges arraySort"
    and "useLower req \<or> useUpper req \<or> useNumber req \<or> useSymbol req"
  shows "\<exists>pw seeds pad. generatePassword arraySort random req = Inr pw
           \<and> mset pw = mset (seeds @ processedKeyword (length' req) (keyword req) @ pad)
           \<and> list_all2 (\<lambda>c cs. c \<in> set cs) seeds (selectedSets req)
           \<and> set pad \<subseteq> set (charsetOf req)"
proof -
  from assms(3) have ne: "charsetOf req \<noteq> []" by (simp add: charsetOf_empty_iff)
  from generatePassword_rearrangement [OF assms(2) ne] obtain pw where
    pw: "generatePassword arraySort random req = Inr pw"
        "mset pw = mset (fst (assemble random req))" by blast
  from assemble_shape [OF assms(1) ne] obtain seeds pad where
    sh: "fst (assemble random req) = seeds @ processedKeyword (length' req) (keyword req) @ pad"
        "list_all2 (\<lambda>c cs. c \<in> set cs) seeds (selectedSets req)"
        "set pad \<subseteq> set (charsetOf req)" by blast
  from pw sh show ?thesis by metis
qed

lemma unitInterval_exampleRandom: "unitInterval exampleRandom"
proof -
  have "of_nat (n mod 7) / 7 < (1::rat)" for n :: nat
  proof -
    have "n mod 7 < 7" by simp
    then have "(of_nat (n mod 7) :: rat) < of_nat 7" by (simp only: of_nat_less_iff)
    then show ?thesis by simp
  qed
  then show ?thesis by (simp add: unitInterval_def exampleRandom_def)
qed

lemma list_all2_pick:
  assumes "list_all2 P xs ys" "y \<in> set ys"
  shows "\<exists>x \<in> set xs. P x y"
  using assms by (induction rule: list_all2_induct) auto

lemma list_all2_pick_right:
  assumes "list_all2 P xs ys" "x \<in> set xs"
  shows "\<exists>y \<in> set ys. P x y"
  using assms by (induction rule: list_all2_induct) auto

lemma seeds_in_charset:
  assumes "list_all2 (\<lambda>c cs. c \<in> set cs) seeds (selectedSets opts)"
  shows "set seeds \<subseteq> set (charsetOf opts)"
proof
  fix c assume "c \<in> set seeds"
  from list_all2_pick_right [OF assms this] obtain cs where
    "cs \<in> set (selectedSets opts)" "c \<in> set cs" by blast
  with selectedSets_charset show "c \<in> set (charsetOf opts)" by blast
qed

lemma length_processedKeyword: "int (length (processedKeyword len kw)) \<le> max 0 (len div 3)"
  by (simp add: processedKeyword_def Let_def substring0_def)

text \<open>One run of the generator, evaluated: twelve characters, three classes, a keyword.\<close>

lemma run12: "generatePassword insertionSort exampleRandom
        \<lparr>useLower = True, useUpper = True, useNumber = True, useSymbol = False,
         length' = 12, keyword = ''hello world''\<rparr> = Inr ''a1SAllJh2Dea''"
  by code_simp

lemma run2: "generatePassword insertionSort exampleRandom
        \<lparr>useLower = True, useUpper = True, useNumber = True, useSymbol = False,
         length' = 2, keyword = ''''\<rparr> = Inr ''Da2''"
  by code_simp

lemma pk12: "processedKeyword 12 ''hello world'' = ''hell''"
  by code_simp

section \<open>Properties of the keyword processing\<close>

lemma whiteSpace_not_alnum: "whiteSpace c \<Longrightarrow> \<not> alnum c"
  by (auto simp add: whiteSpace_def alnum_def lowerAZ_def upperAZ_def digit09_def)

lemma filter_dropWhile_disjoint:
  assumes "\<And>x. P x \<Longrightarrow> \<not> Q x"
  shows "filter Q (dropWhile P xs) = filter Q xs"
  using assms by (induction xs) auto

lemma filter_alnum_trim: "filter alnum (trim kw) = filter alnum kw"
proof -
  have "filter alnum (trim kw) = rev (filter alnum (dropWhile whiteSpace (rev (dropWhile whiteSpace kw))))"
    by (simp add: trim_def rev_filter)
  also have "\<dots> = rev (filter alnum (rev (dropWhile whiteSpace kw)))"
    by (simp only: filter_dropWhile_disjoint [of whiteSpace alnum, OF whiteSpace_not_alnum])
  also have "\<dots> = filter alnum (dropWhile whiteSpace kw)"
    by (simp add: rev_filter)
  also have "\<dots> = filter alnum kw"
    by (simp only: filter_dropWhile_disjoint [of whiteSpace alnum, OF whiteSpace_not_alnum])
  finally show ?thesis .
qed

lemma trim_empty: "list_all whiteSpace kw \<Longrightarrow> trim kw = []"
proof -
  assume "list_all whiteSpace kw"
  then have "dropWhile whiteSpace kw = []" by (simp add: list_all_iff)
  then show ?thesis unfolding trim_def by (simp only: rev.simps dropWhile.simps)
qed

lemma trim_empty_filter: "trim kw = [] \<Longrightarrow> filter alnum kw = []"
  using filter_alnum_trim [of kw] by simp

section \<open>Properties of the score\<close>

lemma clamp_range: "0 \<le> max 0 (min 50 (x::int)) \<and> max 0 (min 50 x) \<le> 50"
  by simp

lemma score_range: "0 \<le> points a \<and> points a \<le> 50"
  unfolding points_def Let_def by (rule clamp_range)

lemma if_add: "(if b then (s::int) + k else s) = s + (if b then k else 0)"
  by simp

lemma if_sub: "(if b then (s::int) - k else s) = s - (if b then k else 0)"
  by simp

lemma points_sum:
  "points a = max 0 (min 50
       ((if length_a a \<ge> 8 then 5 else 0)
        + (if length_a a \<ge> 12 then 5 else 0)
        + (if length_a a \<ge> 16 then 5 else 0)
        + (if length_a a \<ge> 20 then 5 else 0)
        + (if hasLower a then 2 else 0)
        + (if hasUpper a then 2 else 0)
        + (if hasNumber a then 2 else 0)
        + (if hasSymbol a then 3 else 0)
        + (if truthy (hasKeyword a) then min 3 (int (keywordLength a)) else 0)
        - (if hasRepeats a then 3 else 0)
        - (if hasSequences a then 2 else 0)
        - (if length_a a < 8 then 10 else 0)))"
  unfolding points_def Let_def if_add if_sub by (simp only: add_0)

lemma keyword_bonus:
  "(if truthy (hasKeyword (analyse password kw))
    then min 3 (int (keywordLength (analyse password kw))) else 0)
   = (if kw \<noteq> [] \<and> includes_str (toLowerCase password) (toLowerCase kw)
      then min 3 (int (length kw)) else 0)"
  by (simp add: analyse_def)

lemma startsWith_Nil: "startsWith s [] = True"
  by (cases s) simp_all

lemma includes_str_Nil: "includes_str s [] = True"
  by (cases s) simp_all

lemma keyword_bonus_claimed:
  "(if kw \<noteq> [] \<and> includes_str (toLowerCase password) (toLowerCase kw)
      then min 3 (int (length kw)) else 0)
   = (if includes_str (toLowerCase password) (toLowerCase kw)
      then min 3 (int (length kw)) else 0)"
  by (cases "kw = []") (simp_all add: toLowerCase_def includes_str_Nil)

lemma score_formula:
  "score (calculatePasswordStrength password opts kw) = max 0 (min 50
       ((if length password \<ge> 8 then 5 else 0)
        + (if length password \<ge> 12 then 5 else 0)
        + (if length password \<ge> 16 then 5 else 0)
        + (if length password \<ge> 20 then 5 else 0)
        + (if list_ex lowerAZ password then 2 else 0)
        + (if list_ex upperAZ password then 2 else 0)
        + (if list_ex digit09 password then 2 else 0)
        + (if list_ex (\<lambda>c. c \<in> set symbolClass) password then 3 else 0)
        + (if kw \<noteq> [] \<and> includes_str (toLowerCase password) (toLowerCase kw)
           then min 3 (int (length kw)) else 0)
        - (if testRepeats password then 3 else 0)
        - (if testSequences password then 2 else 0)
        - (if length password < 8 then 10 else 0)))"
proof -
  have s: "score (calculatePasswordStrength password opts kw) = points (analyse password kw)"
    by (simp add: calculatePasswordStrength_def Let_def)
  have f: "length_a (analyse password kw) = length password"
    "hasLower (analyse password kw) = list_ex lowerAZ password"
    "hasUpper (analyse password kw) = list_ex upperAZ password"
    "hasNumber (analyse password kw) = list_ex digit09 password"
    "hasSymbol (analyse password kw) = list_ex (\<lambda>c. c \<in> set symbolClass) password"
    "hasRepeats (analyse password kw) = testRepeats password"
    "hasSequences (analyse password kw) = testSequences password"
    by (simp_all add: analyse_def)
  show ?thesis unfolding s points_sum keyword_bonus f by (rule refl)
qed

lemma testRepeats_anyRepeat: "testRepeats s \<Longrightarrow> anyRepeat s"
  by (induction s rule: anyRepeat.induct) auto

lemma anyRepeat_testRepeats:
  "\<not> list_ex lineTerminator s \<Longrightarrow> anyRepeat s \<Longrightarrow> testRepeats s"
  by (induction s rule: anyRepeat.induct) auto

lemma symbolClass_CHARACTER_SETS: "symbolClass = CHARACTER_SETS_symbols"
  by (simp add: symbolClass_def CHARACTER_SETS_symbols_def)

text \<open>
  The ranges of the regular expressions are the character sets, and the sequence test of
  the source is the specification's sequence rule.
\<close>

lemma char_eq_code: "(c = d) = (code c = code d)"
  by (simp add: code_def)

lemma member_by_code: "(c \<in> set s) = (code c \<in> set (map code s))"
  by (auto simp add: char_eq_code [symmetric])

lemma lowerAZ_lowercase: "lowerAZ = (\<lambda>c. c \<in> set CHARACTER_SETS_lowercase)"
proof (rule ext)
  fix c
  have "map code CHARACTER_SETS_lowercase = [97..<123]" by code_simp
  then have "(c \<in> set CHARACTER_SETS_lowercase) = (code c \<in> {97..<123})"
    by (simp only: member_by_code [of c CHARACTER_SETS_lowercase] set_upt)
  then show "lowerAZ c = (c \<in> set CHARACTER_SETS_lowercase)"
    unfolding lowerAZ_def atLeastLessThan_iff by arith
qed

lemma upperAZ_uppercase: "upperAZ = (\<lambda>c. c \<in> set CHARACTER_SETS_uppercase)"
proof (rule ext)
  fix c
  have "map code CHARACTER_SETS_uppercase = [65..<91]" by code_simp
  then have "(c \<in> set CHARACTER_SETS_uppercase) = (code c \<in> {65..<91})"
    by (simp only: member_by_code [of c CHARACTER_SETS_uppercase] set_upt)
  then show "upperAZ c = (c \<in> set CHARACTER_SETS_uppercase)"
    unfolding upperAZ_def atLeastLessThan_iff by arith
qed

lemma digit09_numbers: "digit09 = (\<lambda>c. c \<in> set CHARACTER_SETS_numbers)"
proof (rule ext)
  fix c
  have "map code CHARACTER_SETS_numbers = [48..<58]" by code_simp
  then have "(c \<in> set CHARACTER_SETS_numbers) = (code c \<in> {48..<58})"
    by (simp only: member_by_code [of c CHARACTER_SETS_numbers] set_upt)
  then show "digit09 c = (c \<in> set CHARACTER_SETS_numbers)"
    unfolding digit09_def atLeastLessThan_iff by arith
qed

lemma windows_sequencePatterns:
  "windows3 CHARACTER_SETS_lowercase @ windows3 CHARACTER_SETS_numbers = sequencePatterns"
  by (simp add: CHARACTER_SETS_lowercase_def CHARACTER_SETS_numbers_def sequencePatterns_def)

lemma code_less: "code c < 256"
  by (simp add: code_def)

lemma code_canonicalize:
  "code (canonicalize c) =
     (if lowerAZ c \<or> (224 \<le> code c \<and> code c \<le> 254 \<and> code c \<noteq> 247)
      then code c - 32 else code c)"
proof -
  have "code c - 32 < 256" using code_less [of c] by arith
  then have "(code c - 32) mod 256 = code c - 32" by simp
  then have "code (char_of (code c - 32)) = code c - 32" by (simp add: code_def)
  then show ?thesis by (simp add: canonicalize_def)
qed

lemma code_toLowerCaseChar:
  "code (toLowerCaseChar c) =
     (if upperAZ c \<or> (192 \<le> code c \<and> code c \<le> 222 \<and> code c \<noteq> 215)
      then code c + 32 else code c)"
  by (auto simp add: toLowerCaseChar_def code_def upperAZ_def)

lemma canonicalize_matches:
  assumes "lowerAZ q \<or> digit09 q"
  shows "(canonicalize c = canonicalize q) = (toLowerCaseChar c = q)"
  using assms code_less [of c]
  unfolding char_eq_code code_canonicalize code_toLowerCaseChar lowerAZ_def upperAZ_def
    digit09_def
  by auto

lemma startsWith_folded:
  assumes "\<forall>q \<in> set p. lowerAZ q \<or> digit09 q"
  shows "startsWith (map canonicalize s) (map canonicalize p)
       = startsWith (map toLowerCaseChar s) p"
  using assms
proof (induction s p rule: startsWith.induct)
  case (3 x s y t)
  then show ?case by (simp add: canonicalize_matches)
qed simp_all

lemma includes_folded:
  assumes "\<forall>q \<in> set p. lowerAZ q \<or> digit09 q"
  shows "includes_str (map canonicalize s) (map canonicalize p)
       = includes_str (toLowerCase s) p"
proof (induction s)
  case Nil
  show ?case using startsWith_folded [OF assms, of "[]"] by (simp add: toLowerCase_def)
next
  case (Cons x s)
  then show ?case
    using startsWith_folded [OF assms, of "x # s"] by (simp add: toLowerCase_def)
qed

lemma sequencePatterns_folded:
  "\<forall>p \<in> set sequencePatterns. \<forall>q \<in> set p. lowerAZ q \<or> digit09 q"
  by (simp add: sequencePatterns_def lowerAZ_def digit09_def code_def)

lemma testSequences_claimed: "testSequences s = claimedSequence s"
proof -
  have "list_ex (\<lambda>p. includes_str (map canonicalize s) (map canonicalize p)) sequencePatterns
      = list_ex (\<lambda>p. includes_str (toLowerCase s) p) sequencePatterns"
    unfolding list_ex_iff using sequencePatterns_folded includes_folded by blast
  then show ?thesis
    by (simp add: testSequences_def claimedSequence_def windows_sequencePatterns)
qed

text \<open>
  On a password without line terminators the source computes the specification's sum.
\<close>

lemma score_claimed_without_line_terminators:
  assumes "\<not> list_ex lineTerminator password"
  shows "score (calculatePasswordStrength password opts kw) = claimedScore password kw"
proof -
  from assms have "testRepeats password = anyRepeat password"
    using testRepeats_anyRepeat anyRepeat_testRepeats by blast
  then show ?thesis
    unfolding score_formula claimedScore_def keyword_bonus_claimed symbolClass_CHARACTER_SETS
      lowerAZ_lowercase upperAZ_uppercase digit09_numbers testSequences_claimed
    by (simp only:)
qed

text \<open>
  The bonuses add up to 32 at most, so no password reaches 40, the level Strong.
\<close>

lemma score_at_most_32: "score (calculatePasswordStrength password opts kw) \<le> 32"
proof -
  define l1 :: int where "l1 = (if length password \<ge> 8 then 5 else 0)"
  define l2 :: int where "l2 = (if length password \<ge> 12 then 5 else 0)"
  define l3 :: int where "l3 = (if length password \<ge> 16 then 5 else 0)"
  define l4 :: int where "l4 = (if length password \<ge> 20 then 5 else 0)"
  define c1 :: int where "c1 = (if list_ex lowerAZ password then 2 else 0)"
  define c2 :: int where "c2 = (if list_ex upperAZ password then 2 else 0)"
  define c3 :: int where "c3 = (if list_ex digit09 password then 2 else 0)"
  define c4 :: int where "c4 = (if list_ex (\<lambda>c. c \<in> set symbolClass) password then 3 else 0)"
  define k :: int where "k = (if kw \<noteq> [] \<and> includes_str (toLowerCase password) (toLowerCase kw)
           then min 3 (int (length kw)) else 0)"
  define p1 :: int where "p1 = (if testRepeats password then 3 else 0)"
  define p2 :: int where "p2 = (if testSequences password then 2 else 0)"
  define p3 :: int where "p3 = (if length password < 8 then 10 else 0)"
  have b: "l1 \<le> 5" "l2 \<le> 5" "l3 \<le> 5" "l4 \<le> 5" "c1 \<le> 2" "c2 \<le> 2" "c3 \<le> 2" "c4 \<le> 3"
    "k \<le> 3" "0 \<le> p1" "0 \<le> p2" "0 \<le> p3"
    by (simp_all add: l1_def l2_def l3_def l4_def c1_def c2_def c3_def c4_def k_def
        p1_def p2_def p3_def)
  have "score (calculatePasswordStrength password opts kw)
      = max 0 (min 50 (l1 + l2 + l3 + l4 + c1 + c2 + c3 + c4 + k - p1 - p2 - p3))"
    unfolding l1_def l2_def l3_def l4_def c1_def c2_def c3_def c4_def k_def p1_def p2_def p3_def
    by (rule score_formula)
  with b show ?thesis by linarith
qed

lemma analyse_line_feed_run:
  "analyse [CHR ''a'', CHR ''#'', CHR ''a'', CHR ''#'', CHR ''a'', CHR 0x0A, CHR 0x0A, CHR 0x0A] ''''
     = \<lparr>length_a = 8, hasLower = True, hasUpper = False, hasNumber = False,
        hasSymbol = True, hasRepeats = False, hasSequences = False,
        hasKeyword = JString [], keywordLength = 0\<rparr>"
  by code_simp

lemma claimedScore_line_feed_run:
  "claimedScore [CHR ''a'', CHR ''#'', CHR ''a'', CHR ''#'', CHR ''a'', CHR 0x0A, CHR 0x0A, CHR 0x0A] '''' = 7"
  by code_simp

section \<open>Properties of the shuffle\<close>

text \<open>
  With lower-case letters, upper-case letters and digits enabled, length 3, no keyword and
  the three seeding draws 0, the sequence built before the shuffle is \<open>aA0\<close>, and the
  comparator of the sort reads the draws that follow.
\<close>

lemma unitInterval_drawsOf:
  assumes "\<forall>u \<in> set first. 0 \<le> u \<and> u < 1"
  shows "unitInterval (drawsOf first signs)"
  using assms by (simp add: unitInterval_def drawsOf_def signDraw_def)

lemma assemble_aA0:
  "assemble (drawsOf [0, 0, 0] signs)
     \<lparr>useLower = True, useUpper = True, useNumber = True, useSymbol = False,
      length' = 3, keyword = ''''\<rparr> = (''aA0'', 3)"
  by (simp add: assemble_def selectedSets_def charsetOf_def processedKeyword_def drawsOf_def
      randomIndex_def charAt_def CHARACTER_SETS_lowercase_def CHARACTER_SETS_uppercase_def
      CHARACTER_SETS_numbers_def fillRest.simps [of _ _ _ 3 3] numeral_3_eq_3)

lemma generatePassword_aA0:
  "generatePassword arraySort (drawsOf [0, 0, 0] signs)
     \<lparr>useLower = True, useUpper = True, useNumber = True, useSymbol = False,
      length' = 3, keyword = ''''\<rparr>
   = Inr (arraySort (\<lambda>k. drawsOf [0, 0, 0] signs (3 + k) - 1 / 2) ''aA0'')"
  by (simp add: generatePassword_def assemble_aA0 charsetOf_def CHARACTER_SETS_lowercase_def)

lemma arrangements_aA0:
  assumes "mset xs = mset ''aA0''"
  shows "xs \<in> set [''aA0'', ''a0A'', ''Aa0'', ''A0a'', ''0aA'', ''0Aa'']"
proof -
  from assms have "length xs = length ''aA0''" by (rule mset_eq_length)
  then have "length xs = Suc (Suc (Suc 0))" by simp
  then obtain x y z where xs: "xs = [x, y, z]"
    by (auto simp add: length_Suc_conv)
  from assms have "set xs = set ''aA0''" by (rule mset_eq_setD)
  then have "set xs \<subseteq> {CHR ''a'', CHR ''A'', CHR ''0''}" by simp
  then have m: "x = CHR ''a'' \<or> x = CHR ''A'' \<or> x = CHR ''0''"
    "y = CHR ''a'' \<or> y = CHR ''A'' \<or> y = CHR ''0''"
    "z = CHR ''a'' \<or> z = CHR ''A'' \<or> z = CHR ''0''"
    unfolding xs by simp_all
  from assms have "distinct xs = distinct ''aA0''" by (rule mset_eq_imp_distinct_iff)
  then have "distinct xs" by simp
  then have d: "x \<noteq> y" "x \<noteq> z" "y \<noteq> z" unfolding xs by simp_all
  have "[x, y, z] \<in> set [''aA0'', ''a0A'', ''Aa0'', ''A0a'', ''0aA'', ''0Aa'']"
    using m d by (elim disjE) simp_all
  then show ?thesis unfolding xs .
qed

lemma count_one:
  assumes "distinct ps" "y \<in> set ps"
  shows "(\<Sum>p\<leftarrow>ps. if y = p then 1 else 0) = (1::nat)"
  using assms by (induction ps) (auto simp add: sum_list_0)

lemma count_partition:
  assumes "distinct ps" "\<forall>x \<in> set xs. g x \<in> set ps"
  shows "(\<Sum>p\<leftarrow>ps. length (filter (\<lambda>x. g x = p) xs)) = length xs"
  using assms(2)
proof (induction xs)
  case Nil
  then show ?case by (simp add: sum_list_0)
next
  case (Cons x xs)
  have "(\<Sum>p\<leftarrow>ps. length (filter (\<lambda>x. g x = p) (x # xs)))
      = (\<Sum>p\<leftarrow>ps. (if g x = p then 1 else 0) + length (filter (\<lambda>x. g x = p) xs))"
    by (rule arg_cong [where f = sum_list]) simp
  also have "\<dots> = (\<Sum>p\<leftarrow>ps. if g x = p then 1 else 0)
      + (\<Sum>p\<leftarrow>ps. length (filter (\<lambda>x. g x = p) xs))"
    by (simp add: sum_list_addf)
  also have "\<dots> = 1 + length xs"
    using count_one [OF assms(1), of "g x"] Cons by simp
  finally show ?case by simp
qed

lemma power_two_mod_three: "(2::nat) ^ K mod 3 \<noteq> 0"
proof (induction K)
  case 0
  show ?case by simp
next
  case (Suc K)
  have "(2::nat) ^ Suc K mod 3 = (2 * (2 ^ K mod 3)) mod 3" by (simp add: mod_mult_right_eq)
  moreover have "(2::nat) ^ K mod 3 = 1 \<or> (2::nat) ^ K mod 3 = 2" using Suc by arith
  ultimately show ?case by auto
qed

lemma timesReturned_sum:
  assumes "rearranges arraySort"
  shows "(\<Sum>pw\<leftarrow>[''aA0'', ''a0A'', ''Aa0'', ''A0a'', ''0aA'', ''0Aa''].
           timesReturned arraySort [0, 0, 0]
             \<lparr>useLower = True, useUpper = True, useNumber = True, useSymbol = False,
              length' = 3, keyword = ''''\<rparr> K pw) = 2 ^ K"
proof -
  define g where "g signs = arraySort (\<lambda>k. drawsOf [0, 0, 0] signs (3 + k) - 1 / 2) ''aA0''"
    for signs
  have t: "timesReturned arraySort [0, 0, 0]
             \<lparr>useLower = True, useUpper = True, useNumber = True, useSymbol = False,
              length' = 3, keyword = ''''\<rparr> K pw
         = length (filter (\<lambda>signs. g signs = pw) (List.n_lists K [True, False]))" for pw
    by (simp add: timesReturned_def generatePassword_aA0 g_def)
  have in6: "\<forall>signs \<in> set (List.n_lists K [True, False]).
      g signs \<in> set [''aA0'', ''a0A'', ''Aa0'', ''A0a'', ''0aA'', ''0Aa'']"
  proof
    fix signs
    from assms have "mset (g signs) = mset ''aA0''" by (simp add: rearranges_def g_def)
    then show "g signs \<in> set [''aA0'', ''a0A'', ''Aa0'', ''A0a'', ''0aA'', ''0Aa'']"
      by (rule arrangements_aA0)
  qed
  have d: "distinct [''aA0'', ''a0A'', ''Aa0'', ''A0a'', ''0aA'', ''0Aa'']" by simp
  have s: "(\<Sum>pw\<leftarrow>[''aA0'', ''a0A'', ''Aa0'', ''A0a'', ''0aA'', ''0Aa''].
           length (filter (\<lambda>signs. g signs = pw) (List.n_lists K [True, False])))
        = length (List.n_lists K [True, False])"
    by (rule count_partition [OF d in6])
  have l: "length (List.n_lists K [True, False]) = 2 ^ K" by (simp add: length_n_lists numeral_2_eq_2)
  show ?thesis unfolding t s l by (rule refl)
qed

text \<open>
  The stand-in insertion sort calls the comparator at most three times on three
  characters; of the eight sign sequences it returns two arrangements twice and four once.
\<close>

lemma insertionSort_timesReturned:
  "map (timesReturned insertionSort [0, 0, 0]
     \<lparr>useLower = True, useUpper = True, useNumber = True, useSymbol = False,
      length' = 3, keyword = ''''\<rparr> 3)
     [''aA0'', ''a0A'', ''Aa0'', ''A0a'', ''0aA'', ''0Aa''] = [1, 1, 1, 1, 2, 2]"
  by code_simp

section \<open>Claims about generatePassword\<close>

text \<open>
  Claim C1. For every request with at least one enabled character class and a length of at
  least 1, and for every sequence of random numbers, \<open>generatePassword\<close> returns a string,
  and the string holds at least one character of each enabled class: a lower-case letter
  if \<open>useLower\<close>, an upper-case letter if \<open>useUpper\<close>, a digit if \<open>useNumber\<close>, a symbol if
  \<open>useSymbol\<close>.
\<close>

theorem generatePassword_every_enabled_class:
  assumes "unitInterval random" and "rearranges arraySort"
    and "useLower req \<or> useUpper req \<or> useNumber req \<or> useSymbol req"
    and "1 \<le> length' req"
  shows "\<exists>pw. generatePassword arraySort random req = Inr pw
           \<and> (useLower req \<longrightarrow> (\<exists>c \<in> set pw. c \<in> set CHARACTER_SETS_lowercase))
           \<and> (useUpper req \<longrightarrow> (\<exists>c \<in> set pw. c \<in> set CHARACTER_SETS_uppercase))
           \<and> (useNumber req \<longrightarrow> (\<exists>c \<in> set pw. c \<in> set CHARACTER_SETS_numbers))
           \<and> (useSymbol req \<longrightarrow> (\<exists>c \<in> set pw. c \<in> set CHARACTER_SETS_symbols))"
proof -
  from assms(3) have ne: "charsetOf req \<noteq> []" by (simp add: charsetOf_empty_iff)
  from generatePassword_rearrangement [OF assms(2) ne] obtain pw where
    pw: "generatePassword arraySort random req = Inr pw"
        "mset pw = mset (fst (assemble random req))" by blast
  from assemble_shape [OF assms(1) ne] obtain seeds pad where
    sh: "fst (assemble random req) = seeds @ processedKeyword (length' req) (keyword req) @ pad"
        "list_all2 (\<lambda>c cs. c \<in> set cs) seeds (selectedSets req)" by blast
  from pw(2) have "set pw = set (fst (assemble random req))" by (rule mset_eq_setD)
  with sh(1) have sub: "set seeds \<subseteq> set pw" by simp
  have each: "\<exists>c \<in> set pw. c \<in> set cs" if "cs \<in> set (selectedSets req)" for cs
    using list_all2_pick [OF sh(2) that] sub by blast
  have "useLower req \<longrightarrow> (\<exists>c \<in> set pw. c \<in> set CHARACTER_SETS_lowercase)"
    using each [of CHARACTER_SETS_lowercase] by (simp add: selectedSets_def)
  moreover have "useUpper req \<longrightarrow> (\<exists>c \<in> set pw. c \<in> set CHARACTER_SETS_uppercase)"
    using each [of CHARACTER_SETS_uppercase] by (simp add: selectedSets_def)
  moreover have "useNumber req \<longrightarrow> (\<exists>c \<in> set pw. c \<in> set CHARACTER_SETS_numbers)"
    using each [of CHARACTER_SETS_numbers] by (simp add: selectedSets_def)
  moreover have "useSymbol req \<longrightarrow> (\<exists>c \<in> set pw. c \<in> set CHARACTER_SETS_symbols)"
    using each [of CHARACTER_SETS_symbols] by (simp add: selectedSets_def)
  ultimately show ?thesis using pw(1) by blast
qed

theorem generatePassword_every_enabled_class_witness:
  "unitInterval exampleRandom \<and> rearranges insertionSort
   \<and> generatePassword insertionSort exampleRandom
        \<lparr>useLower = True, useUpper = True, useNumber = True, useSymbol = False,
         length' = 12, keyword = ''hello world''\<rparr> = Inr ''a1SAllJh2Dea''
   \<and> (\<exists>c \<in> set ''a1SAllJh2Dea''. c \<in> set CHARACTER_SETS_lowercase)
   \<and> (\<exists>c \<in> set ''a1SAllJh2Dea''. c \<in> set CHARACTER_SETS_uppercase)
   \<and> (\<exists>c \<in> set ''a1SAllJh2Dea''. c \<in> set CHARACTER_SETS_numbers)"
  using generatePassword_every_enabled_class [OF unitInterval_exampleRandom
      rearranges_insertionSort, of "\<lparr>useLower = True, useUpper = True, useNumber = True,
        useSymbol = False, length' = 12, keyword = ''hello world''\<rparr>"]
  by (simp add: run12 unitInterval_exampleRandom rearranges_insertionSort)

text \<open>
  Claim C3, as the specification states it: the password is at least as long as requested,
  and exactly as long whenever the keyword is empty. It fails: with three classes enabled,
  a requested length of 2 and no keyword, the three seeded characters are all returned.
\<close>

theorem generatePassword_length_counterexample:
  "unitInterval exampleRandom \<and> rearranges insertionSort
   \<and> keyword \<lparr>useLower = True, useUpper = True, useNumber = True, useSymbol = False,
         length' = 2, keyword = ''''\<rparr> = ''''
   \<and> generatePassword insertionSort exampleRandom
        \<lparr>useLower = True, useUpper = True, useNumber = True, useSymbol = False,
         length' = 2, keyword = ''''\<rparr> = Inr ''Da2''
   \<and> int (length ''Da2'') \<noteq> 2"
  by (simp add: run2 unitInterval_exampleRandom rearranges_insertionSort)

text \<open>
  Claim C3, amended. For every request with at least one enabled class and a length of at
  least 1, the password returned is at least as long as requested; its length is the larger
  of the requested length and the number of enabled classes plus the length of the
  processed keyword. It is exactly as long as requested whenever the number of enabled
  classes plus the length of the processed keyword does not exceed the requested length,
  which is so for every requested length from 6 on.
\<close>

theorem generatePassword_length:
  assumes "unitInterval random" and "rearranges arraySort"
    and "useLower req \<or> useUpper req \<or> useNumber req \<or> useSymbol req"
    and "1 \<le> length' req"
  shows "\<exists>pw. generatePassword arraySort random req = Inr pw
           \<and> length' req \<le> int (length pw)
           \<and> int (length pw) = max (length' req)
                (int (length (selectedSets req))
                 + int (length (processedKeyword (length' req) (keyword req))))
           \<and> (int (length (selectedSets req))
                 + int (length (processedKeyword (length' req) (keyword req))) \<le> length' req
                \<longrightarrow> int (length pw) = length' req)
           \<and> (6 \<le> length' req \<longrightarrow> int (length pw) = length' req)"
proof -
  define pk where "pk = processedKeyword (length' req) (keyword req)"
  from assms(3) have ne: "charsetOf req \<noteq> []" by (simp add: charsetOf_empty_iff)
  from generatePassword_rearrangement [OF assms(2) ne] obtain pw where
    pw: "generatePassword arraySort random req = Inr pw"
        "mset pw = mset (fst (assemble random req))" by blast
  from assemble_shape [OF assms(1) ne] obtain seeds pad where
    sh: "fst (assemble random req) = seeds @ pk @ pad"
        "list_all2 (\<lambda>c cs. c \<in> set cs) seeds (selectedSets req)"
        "length pad = nat (length' req - int (length seeds + length pk))"
    unfolding pk_def by blast
  from sh(2) have ls: "length seeds = length (selectedSets req)" by (rule list_all2_lengthD)
  from pw(2) have "length pw = length (fst (assemble random req))" by (rule mset_eq_length)
  with sh(1) have "length pw = length seeds + length pk + length pad" by simp
  with sh(3) ls have len: "int (length pw)
      = max (length' req) (int (length (selectedSets req)) + int (length pk))" by simp
  have four: "int (length (selectedSets req)) \<le> 4" by (simp add: length_selectedSets)
  have third: "int (length pk) \<le> max 0 (length' req div 3)"
    unfolding pk_def by (rule length_processedKeyword)
  have big: "int (length (selectedSets req)) + int (length pk) \<le> length' req"
    if "6 \<le> length' req" using four third that by simp
  from len big have "length' req \<le> int (length pw)"
    and "int (length (selectedSets req)) + int (length pk) \<le> length' req
          \<longrightarrow> int (length pw) = length' req"
    and "6 \<le> length' req \<longrightarrow> int (length pw) = length' req" by auto
  with pw(1) len show ?thesis unfolding pk_def by blast
qed

theorem generatePassword_length_witness:
  "unitInterval exampleRandom \<and> rearranges insertionSort
   \<and> generatePassword insertionSort exampleRandom
        \<lparr>useLower = True, useUpper = True, useNumber = True, useSymbol = False,
         length' = 12, keyword = ''hello world''\<rparr> = Inr ''a1SAllJh2Dea''
   \<and> int (length ''a1SAllJh2Dea'') = 12"
  using generatePassword_length [OF unitInterval_exampleRandom
      rearranges_insertionSort, of "\<lparr>useLower = True, useUpper = True, useNumber = True,
        useSymbol = False, length' = 12, keyword = ''hello world''\<rparr>"]
  by (simp add: run12 unitInterval_exampleRandom rearranges_insertionSort)

text \<open>
  Claim C4. For every request with at least one enabled class and a length of at least 1,
  and for every sequence of random numbers, every character of the password returned
  belongs to the character set of an enabled class or occurs in the processed keyword.
\<close>

theorem generatePassword_characters:
  assumes "unitInterval random" and "rearranges arraySort"
    and "useLower req \<or> useUpper req \<or> useNumber req \<or> useSymbol req"
    and "1 \<le> length' req"
  shows "\<exists>pw. generatePassword arraySort random req = Inr pw
           \<and> (\<forall>c \<in> set pw.
                 (useLower req \<and> c \<in> set CHARACTER_SETS_lowercase)
               \<or> (useUpper req \<and> c \<in> set CHARACTER_SETS_uppercase)
               \<or> (useNumber req \<and> c \<in> set CHARACTER_SETS_numbers)
               \<or> (useSymbol req \<and> c \<in> set CHARACTER_SETS_symbols)
               \<or> c \<in> set (processedKeyword (length' req) (keyword req)))"
proof -
  define pk where "pk = processedKeyword (length' req) (keyword req)"
  from assms(3) have ne: "charsetOf req \<noteq> []" by (simp add: charsetOf_empty_iff)
  from generatePassword_rearrangement [OF assms(2) ne] obtain pw where
    pw: "generatePassword arraySort random req = Inr pw"
        "mset pw = mset (fst (assemble random req))" by blast
  from assemble_shape [OF assms(1) ne] obtain seeds pad where
    sh: "fst (assemble random req) = seeds @ pk @ pad"
        "list_all2 (\<lambda>c cs. c \<in> set cs) seeds (selectedSets req)"
        "set pad \<subseteq> set (charsetOf req)"
    unfolding pk_def by blast
  from pw(2) have "set pw = set (fst (assemble random req))" by (rule mset_eq_setD)
  with sh(1) have "set pw = set seeds \<union> set pk \<union> set pad" by auto
  with seeds_in_charset [OF sh(2)] sh(3)
  have sub: "set pw \<subseteq> set (charsetOf req) \<union> set pk" by auto
  have cls: "(useLower req \<and> c \<in> set CHARACTER_SETS_lowercase)
               \<or> (useUpper req \<and> c \<in> set CHARACTER_SETS_uppercase)
               \<or> (useNumber req \<and> c \<in> set CHARACTER_SETS_numbers)
               \<or> (useSymbol req \<and> c \<in> set CHARACTER_SETS_symbols)"
    if "c \<in> set (charsetOf req)" for c
    using that by (auto simp add: charsetOf_def split: if_splits)
  from sub cls have "\<forall>c \<in> set pw.
                 (useLower req \<and> c \<in> set CHARACTER_SETS_lowercase)
               \<or> (useUpper req \<and> c \<in> set CHARACTER_SETS_uppercase)
               \<or> (useNumber req \<and> c \<in> set CHARACTER_SETS_numbers)
               \<or> (useSymbol req \<and> c \<in> set CHARACTER_SETS_symbols)
               \<or> c \<in> set pk" by blast
  with pw(1) show ?thesis unfolding pk_def by blast
qed

theorem generatePassword_characters_witness:
  "unitInterval exampleRandom \<and> rearranges insertionSort
   \<and> generatePassword insertionSort exampleRandom
        \<lparr>useLower = True, useUpper = True, useNumber = True, useSymbol = False,
         length' = 12, keyword = ''hello world''\<rparr> = Inr ''a1SAllJh2Dea''
   \<and> list_all (\<lambda>c.
          c \<in> set CHARACTER_SETS_lowercase \<or> c \<in> set CHARACTER_SETS_uppercase
        \<or> c \<in> set CHARACTER_SETS_numbers \<or> c \<in> set ''hell'') ''a1SAllJh2Dea''"
  using generatePassword_characters [OF unitInterval_exampleRandom
      rearranges_insertionSort, of "\<lparr>useLower = True, useUpper = True, useNumber = True,
        useSymbol = False, length' = 12, keyword = ''hello world''\<rparr>"]
  by (simp add: run12 pk12 unitInterval_exampleRandom rearranges_insertionSort list_all_iff)

text \<open>
  Claim C5. The processed keyword is the raw keyword without the characters outside
  \<open>[a-zA-Z0-9]\<close>, cut to at most \<open>floor(length / 3)\<close> characters; it is empty when the raw
  keyword is empty or consists of white space only; the keyword \<open>ab!@12cd\<close> with length 9
  is processed to \<open>ab1\<close>.
\<close>

theorem processedKeyword_spec:
  "processedKeyword len kw = take (nat (len div 3)) (filter alnum kw)
   \<and> (kw = [] \<or> list_all whiteSpace kw \<longrightarrow> processedKeyword len kw = [])
   \<and> processedKeyword 9 ''ab!@12cd'' = ''ab1''"
proof -
  have main: "processedKeyword len kw = take (nat (len div 3)) (filter alnum kw)" for len kw
  proof (cases "kw \<noteq> [] \<and> trim kw \<noteq> []")
    case False
    then have "filter alnum kw = []" using trim_empty_filter [of kw] by auto
    with False show ?thesis by (auto simp add: processedKeyword_def)
  next
    case True
    then show ?thesis
      by (simp add: processedKeyword_def Let_def substring0_def filter_alnum_trim)
  qed
  have empty: "kw = [] \<or> list_all whiteSpace kw \<longrightarrow> processedKeyword len kw = []"
    using trim_empty [of kw] by (auto simp add: processedKeyword_def)
  have "processedKeyword 9 ''ab!@12cd'' = ''ab1''" by code_simp
  with main empty show ?thesis by blast
qed

theorem processedKeyword_spec_witness:
  "list_all whiteSpace [CHR '' '', CHR 0x09] \<and> processedKeyword 12 [CHR '' '', CHR 0x09] = []
   \<and> processedKeyword 12 ''hello world'' = take 4 ''helloworld''"
proof -
  have w: "list_all whiteSpace [CHR '' '', CHR 0x09]" by code_simp
  have f: "filter alnum ''hello world'' = ''helloworld''" by code_simp
  have n: "nat (12 div 3) = 4" by simp
  from processedKeyword_spec [of 12 "[CHR '' '', CHR 0x09]"] w
  have a: "processedKeyword 12 [CHR '' '', CHR 0x09] = []" by blast
  from processedKeyword_spec [of 12 "''hello world''"]
  have "processedKeyword 12 ''hello world'' = take (nat (12 div 3)) (filter alnum ''hello world'')"
    by blast
  then have b: "processedKeyword 12 ''hello world'' = take 4 ''helloworld''"
    by (simp only: f n)
  from w a b show ?thesis by blast
qed

text \<open>
  Claim C7. \<open>generatePassword\<close> throws its error exactly when no character class is
  enabled, and this is the only error it throws; with at least one class enabled it
  returns a password. The scorer has no error path: on the empty string it returns the
  score 0 and the level Very Weak, whatever the keyword.
\<close>

theorem generatePassword_error_iff:
  "(generatePassword arraySort random req
      = Inl (Error ''At least one character type must be selected''))
     = (\<not> useLower req \<and> \<not> useUpper req \<and> \<not> useNumber req \<and> \<not> useSymbol req)
   \<and> (\<exists>e. generatePassword arraySort random req = Inl e)
     = (\<not> useLower req \<and> \<not> useUpper req \<and> \<not> useNumber req \<and> \<not> useSymbol req)
   \<and> (\<exists>pw. generatePassword arraySort random req = Inr pw)
     = (useLower req \<or> useUpper req \<or> useNumber req \<or> useSymbol req)
   \<and> score (calculatePasswordStrength [] opts kw) = 0
   \<and> strength (calculatePasswordStrength [] opts kw) = ''Very Weak''"
proof -
  have e: "(charsetOf req = [])
     = (\<not> useLower req \<and> \<not> useUpper req \<and> \<not> useNumber req \<and> \<not> useSymbol req)"
    by (rule charsetOf_empty_iff)
  have g: "(generatePassword arraySort random req
      = Inl (Error ''At least one character type must be selected''))
     = (charsetOf req = [])"
    "(\<exists>e. generatePassword arraySort random req = Inl e) = (charsetOf req = [])"
    "(\<exists>pw. generatePassword arraySort random req = Inr pw) = (charsetOf req \<noteq> [])"
    by (simp_all add: generatePassword_def Let_def)
  have a: "analyse [] kw = \<lparr> length_a = 0, hasLower = False, hasUpper = False,
      hasNumber = False, hasSymbol = False, hasRepeats = False, hasSequences = False,
      hasKeyword = (if kw = [] then JString [] else JBoolean False),
      keywordLength = length kw \<rparr>"
    by (cases kw) (simp_all add: analyse_def testSequences_def sequencePatterns_def
        toLowerCase_def)
  have p: "points (analyse [] kw) = 0" unfolding a by (simp add: points_def Let_def)
  have "score (calculatePasswordStrength [] opts kw) = 0"
    and "strength (calculatePasswordStrength [] opts kw) = ''Very Weak''"
    by (simp_all add: calculatePasswordStrength_def Let_def p strengthLevel_def)
  with e g show ?thesis by simp
qed

theorem generatePassword_error_iff_witness:
  "generatePassword insertionSort exampleRandom
      \<lparr>useLower = False, useUpper = False, useNumber = False, useSymbol = False,
       length' = 6, keyword = ''x''\<rparr>
     = Inl (Error ''At least one character type must be selected'')
   \<and> generatePassword insertionSort exampleRandom
        \<lparr>useLower = True, useUpper = True, useNumber = True, useSymbol = False,
         length' = 12, keyword = ''hello world''\<rparr> = Inr ''a1SAllJh2Dea''
   \<and> score (calculatePasswordStrength [] \<lparr>useLower = True, useUpper = True,
        useNumber = True, useSymbol = False\<rparr> ''x'') = 0"
  using generatePassword_error_iff [of insertionSort exampleRandom
      "\<lparr>useLower = False, useUpper = False, useNumber = False, useSymbol = False,
       length' = 6, keyword = ''x''\<rparr>" "\<lparr>useLower = True, useUpper = True,
        useNumber = True, useSymbol = False\<rparr>" "''x''"]
  by (simp add: run12)

text \<open>
  Claim C8 says that the final step of \<open>generatePassword\<close> is a uniform random
  permutation of the sequence built before it (seeded characters, then processed keyword,
  then padding). The source sorts the characters with the comparator
  \<open>Math.random() - 0.5\<close>. The password returned is a rearrangement of that sequence
  whatever the engine's sort does, but no sort makes it uniform: for the request with
  lower-case letters, upper-case letters and digits, length 3, no keyword and the built
  sequence \<open>aA0\<close>, there is no sort that returns a rearrangement and no number \<open>K\<close> of
  comparator calls for which the six arrangements are returned equally often, since they
  share \<open>2 ^ K\<close> sign sequences and 6 does not divide a power of 2.
\<close>

theorem generatePassword_shuffle_not_uniform:
  "\<not> (\<exists>arraySort K c. rearranges arraySort
        \<and> timesReturned arraySort [0, 0, 0]
             \<lparr>useLower = True, useUpper = True, useNumber = True, useSymbol = False,
              length' = 3, keyword = ''''\<rparr> K ''aA0'' = c
        \<and> timesReturned arraySort [0, 0, 0]
             \<lparr>useLower = True, useUpper = True, useNumber = True, useSymbol = False,
              length' = 3, keyword = ''''\<rparr> K ''a0A'' = c
        \<and> timesReturned arraySort [0, 0, 0]
             \<lparr>useLower = True, useUpper = True, useNumber = True, useSymbol = False,
              length' = 3, keyword = ''''\<rparr> K ''Aa0'' = c
        \<and> timesReturned arraySort [0, 0, 0]
             \<lparr>useLower = True, useUpper = True, useNumber = True, useSymbol = False,
              length' = 3, keyword = ''''\<rparr> K ''A0a'' = c
        \<and> timesReturned arraySort [0, 0, 0]
             \<lparr>useLower = True, useUpper = True, useNumber = True, useSymbol = False,
              length' = 3, keyword = ''''\<rparr> K ''0aA'' = c
        \<and> timesReturned arraySort [0, 0, 0]
             \<lparr>useLower = True, useUpper = True, useNumber = True, useSymbol = False,
              length' = 3, keyword = ''''\<rparr> K ''0Aa'' = c)"
proof
  assume "\<exists>arraySort K c. rearranges arraySort
        \<and> timesReturned arraySort [0, 0, 0]
             \<lparr>useLower = True, useUpper = True, useNumber = True, useSymbol = False,
              length' = 3, keyword = ''''\<rparr> K ''aA0'' = c
        \<and> timesReturned arraySort [0, 0, 0]
             \<lparr>useLower = True, useUpper = True, useNumber = True, useSymbol = False,
              length' = 3, keyword = ''''\<rparr> K ''a0A'' = c
        \<and> timesReturned arraySort [0, 0, 0]
             \<lparr>useLower = True, useUpper = True, useNumber = True, useSymbol = False,
              length' = 3, keyword = ''''\<rparr> K ''Aa0'' = c
        \<and> timesReturned arraySort [0, 0, 0]
             \<lparr>useLower = True, useUpper = True, useNumber = True, useSymbol = False,
              length' = 3, keyword = ''''\<rparr> K ''A0a'' = c
        \<and> timesReturned arraySort [0, 0, 0]
             \<lparr>useLower = True, useUpper = True, useNumber = True, useSymbol = False,
              length' = 3, keyword = ''''\<rparr> K ''0aA'' = c
        \<and> timesReturned arraySort [0, 0, 0]
             \<lparr>useLower = True, useUpper = True, useNumber = True, useSymbol = False,
              length' = 3, keyword = ''''\<rparr> K ''0Aa'' = c"
  then obtain arraySort K c where r: "rearranges arraySort"
    and e: "timesReturned arraySort [0, 0, 0]
             \<lparr>useLower = True, useUpper = True, useNumber = True, useSymbol = False,
              length' = 3, keyword = ''''\<rparr> K ''aA0'' = c"
           "timesReturned arraySort [0, 0, 0]
             \<lparr>useLower = True, useUpper = True, useNumber = True, useSymbol = False,
              length' = 3, keyword = ''''\<rparr> K ''a0A'' = c"
           "timesReturned arraySort [0, 0, 0]
             \<lparr>useLower = True, useUpper = True, useNumber = True, useSymbol = False,
              length' = 3, keyword = ''''\<rparr> K ''Aa0'' = c"
           "timesReturned arraySort [0, 0, 0]
             \<lparr>useLower = True, useUpper = True, useNumber = True, useSymbol = False,
              length' = 3, keyword = ''''\<rparr> K ''A0a'' = c"
           "timesReturned arraySort [0, 0, 0]
             \<lparr>useLower = True, useUpper = True, useNumber = True, useSymbol = False,
              length' = 3, keyword = ''''\<rparr> K ''0aA'' = c"
           "timesReturned arraySort [0, 0, 0]
             \<lparr>useLower = True, useUpper = True, useNumber = True, useSymbol = False,
              length' = 3, keyword = ''''\<rparr> K ''0Aa'' = c"
    by blast
  have "6 * c = 2 ^ K" using timesReturned_sum [OF r, of K] e by simp
  moreover have "(6 * c) mod 3 = 0" by presburger
  ultimately have "(2::nat) ^ K mod 3 = 0" by simp
  with power_two_mod_three [of K] show False by simp
qed

section \<open>Claims about calculatePasswordStrength\<close>

text \<open>
  Claim C2 says that the score is the clamped sum \<open>claimedScore\<close>, in which three or more
  copies of any character in a row cost 3 points. The source tests \<open>/(.)\1{2,}/\<close>, and its
  dot does not match a line terminator: on the eight characters \<open>a#a#a\<close> and three line
  feeds the source finds no repeat and returns 10 (Weak), where the claimed sum is 7.
\<close>

theorem calculatePasswordStrength_line_feed_run:
  "score (calculatePasswordStrength
      [CHR ''a'', CHR ''#'', CHR ''a'', CHR ''#'', CHR ''a'', CHR 0x0A, CHR 0x0A, CHR 0x0A]
      \<lparr>useLower = True, useUpper = False, useNumber = False, useSymbol = True\<rparr> '''') = 10
   \<and> strength (calculatePasswordStrength
      [CHR ''a'', CHR ''#'', CHR ''a'', CHR ''#'', CHR ''a'', CHR 0x0A, CHR 0x0A, CHR 0x0A]
      \<lparr>useLower = True, useUpper = False, useNumber = False, useSymbol = True\<rparr> '''')
       = ''Weak''
   \<and> hasRepeats (analysis (calculatePasswordStrength
      [CHR ''a'', CHR ''#'', CHR ''a'', CHR ''#'', CHR ''a'', CHR 0x0A, CHR 0x0A, CHR 0x0A]
      \<lparr>useLower = True, useUpper = False, useNumber = False, useSymbol = True\<rparr> ''''))
       = False
   \<and> anyRepeat
      [CHR ''a'', CHR ''#'', CHR ''a'', CHR ''#'', CHR ''a'', CHR 0x0A, CHR 0x0A, CHR 0x0A]
       = True
   \<and> claimedScore
      [CHR ''a'', CHR ''#'', CHR ''a'', CHR ''#'', CHR ''a'', CHR 0x0A, CHR 0x0A, CHR 0x0A] ''''
       = 7"
proof -
  have p: "points \<lparr>length_a = 8, hasLower = True, hasUpper = False, hasNumber = False,
        hasSymbol = True, hasRepeats = False, hasSequences = False,
        hasKeyword = JString [], keywordLength = 0\<rparr> = 10"
    by (simp add: points_def Let_def)
  have r: "calculatePasswordStrength
      [CHR ''a'', CHR ''#'', CHR ''a'', CHR ''#'', CHR ''a'', CHR 0x0A, CHR 0x0A, CHR 0x0A]
      \<lparr>useLower = True, useUpper = False, useNumber = False, useSymbol = True\<rparr> ''''
     = \<lparr>score = 10, strength = ''Weak'', emoji = OrangeCircle, color = ''warning'',
        analysis = \<lparr>length_a = 8, hasLower = True, hasUpper = False, hasNumber = False,
          hasSymbol = True, hasRepeats = False, hasSequences = False,
          hasKeyword = JString [], keywordLength = 0\<rparr>\<rparr>"
    unfolding calculatePasswordStrength_def Let_def analyse_line_feed_run p
    by (simp add: strengthLevel_def)
  have a: "anyRepeat
      [CHR ''a'', CHR ''#'', CHR ''a'', CHR ''#'', CHR ''a'', CHR 0x0A, CHR 0x0A, CHR 0x0A]
      = True"
    by simp
  show ?thesis unfolding r a claimedScore_line_feed_run by simp
qed

text \<open>
  Claim C6. For every input the score lies between 0 and 50, and the level follows the
  score in half-open tiers: below 10 Very Weak, from 10 below 20 Weak, from 20 below 30
  Fair, from 30 below 40 Good, from 40 on Strong; so 9 is Very Weak, 10 and 19 are Weak,
  20 is Fair, 39 is Good and 40 is Strong.
\<close>

theorem calculatePasswordStrength_range_and_level:
  "0 \<le> score (calculatePasswordStrength password opts kw)
   \<and> score (calculatePasswordStrength password opts kw) \<le> 50
   \<and> (strength (calculatePasswordStrength password opts kw) = ''Very Weak'')
       = (score (calculatePasswordStrength password opts kw) < 10)
   \<and> (strength (calculatePasswordStrength password opts kw) = ''Weak'')
       = (10 \<le> score (calculatePasswordStrength password opts kw)
          \<and> score (calculatePasswordStrength password opts kw) < 20)
   \<and> (strength (calculatePasswordStrength password opts kw) = ''Fair'')
       = (20 \<le> score (calculatePasswordStrength password opts kw)
          \<and> score (calculatePasswordStrength password opts kw) < 30)
   \<and> (strength (calculatePasswordStrength password opts kw) = ''Good'')
       = (30 \<le> score (calculatePasswordStrength password opts kw)
          \<and> score (calculatePasswordStrength password opts kw) < 40)
   \<and> (strength (calculatePasswordStrength password opts kw) = ''Strong'')
       = (40 \<le> score (calculatePasswordStrength password opts kw))
   \<and> strength (calculatePasswordStrength password opts kw)
       = fst (strengthLevel (score (calculatePasswordStrength password opts kw)))
   \<and> fst (strengthLevel 9) = ''Very Weak'' \<and> fst (strengthLevel 10) = ''Weak''
   \<and> fst (strengthLevel 19) = ''Weak'' \<and> fst (strengthLevel 20) = ''Fair''
   \<and> fst (strengthLevel 39) = ''Good'' \<and> fst (strengthLevel 40) = ''Strong''"
proof -
  define r where "r = calculatePasswordStrength password opts kw"
  have s: "score r = points (analyse password kw)"
    and l: "strength r = fst (strengthLevel (score r))"
    by (simp_all add: r_def calculatePasswordStrength_def Let_def)
  from s score_range have rng: "0 \<le> score r" "score r \<le> 50" by simp_all
  have t1: "(strength r = ''Very Weak'') = (score r < 10)"
    unfolding l by (simp add: strengthLevel_def)
  have t2: "(strength r = ''Weak'') = (10 \<le> score r \<and> score r < 20)"
    unfolding l by (simp add: strengthLevel_def)
  have t3: "(strength r = ''Fair'') = (20 \<le> score r \<and> score r < 30)"
    unfolding l by (simp add: strengthLevel_def)
  have t4: "(strength r = ''Good'') = (30 \<le> score r \<and> score r < 40)"
    unfolding l by (simp add: strengthLevel_def)
  have t5: "(strength r = ''Strong'') = (40 \<le> score r)"
    unfolding l by (simp add: strengthLevel_def)
  have ex: "fst (strengthLevel 9) = ''Very Weak''" "fst (strengthLevel 10) = ''Weak''"
    "fst (strengthLevel 19) = ''Weak''" "fst (strengthLevel 20) = ''Fair''"
    "fst (strengthLevel 39) = ''Good''" "fst (strengthLevel 40) = ''Strong''"
    by (simp_all add: strengthLevel_def)
  show ?thesis unfolding r_def [symmetric] by (intro conjI rng t1 t2 t3 t4 t5 l ex)
qed

theorem calculatePasswordStrength_range_and_level_witness:
  "0 \<le> score (calculatePasswordStrength ''zz#a!zzzz''
      \<lparr>useLower = True, useUpper = False, useNumber = False, useSymbol = True\<rparr> ''a!'')
   \<and> score (calculatePasswordStrength ''zz#a!zzzz''
      \<lparr>useLower = True, useUpper = False, useNumber = False, useSymbol = True\<rparr> ''a!'') \<le> 50
   \<and> strength (calculatePasswordStrength ''zz#a!zzzz''
      \<lparr>useLower = True, useUpper = False, useNumber = False, useSymbol = True\<rparr> ''a!'')
       = fst (strengthLevel (score (calculatePasswordStrength ''zz#a!zzzz''
      \<lparr>useLower = True, useUpper = False, useNumber = False, useSymbol = True\<rparr> ''a!'')))"
  using calculatePasswordStrength_range_and_level [of "''zz#a!zzzz''"
      "\<lparr>useLower = True, useUpper = False, useNumber = False, useSymbol = True\<rparr>" "''a!''"]
  by blast

text \<open>
  Claim C9. The report does not depend on the options argument: two calls with the same
  password and the same keyword return the same report, whatever classes the options
  enable. The function reads no randomness, so the report is a function of the password
  and the keyword.
\<close>

theorem calculatePasswordStrength_ignores_options:
  "calculatePasswordStrength password opts1 kw = calculatePasswordStrength password opts2 kw"
  by (simp add: calculatePasswordStrength_def)

theorem calculatePasswordStrength_ignores_options_witness:
  "calculatePasswordStrength ''aaa11111111''
      \<lparr>useLower = True, useUpper = False, useNumber = True, useSymbol = False\<rparr> ''''
   = calculatePasswordStrength ''aaa11111111''
      \<lparr>useLower = False, useUpper = True, useNumber = False, useSymbol = True\<rparr> ''''"
  by (rule calculatePasswordStrength_ignores_options)

text \<open>
  Claim C10. The flag \<open>keywordLength\<close> is the length of the keyword as passed, white space
  and punctuation included; the flag \<open>hasKeyword\<close> tests the lower-cased password against
  the lower-cased keyword as passed; and the keyword bonus in the score is
  \<open>min(3, keywordLength)\<close> of that raw keyword. The processed keyword of the generator
  plays no part.
\<close>

theorem calculatePasswordStrength_raw_keyword:
  "keywordLength (analysis (calculatePasswordStrength password opts kw)) = length kw
   \<and> hasKeyword (analysis (calculatePasswordStrength password opts kw))
       = (if kw = [] then JString []
          else JBoolean (includes_str (toLowerCase password) (toLowerCase kw)))
   \<and> truthy (hasKeyword (analysis (calculatePasswordStrength password opts kw)))
       = (kw \<noteq> [] \<and> includes_str (toLowerCase password) (toLowerCase kw))
   \<and> score (calculatePasswordStrength password opts kw) = max 0 (min 50
       ((if length password \<ge> 8 then 5 else 0)
        + (if length password \<ge> 12 then 5 else 0)
        + (if length password \<ge> 16 then 5 else 0)
        + (if length password \<ge> 20 then 5 else 0)
        + (if list_ex lowerAZ password then 2 else 0)
        + (if list_ex upperAZ password then 2 else 0)
        + (if list_ex digit09 password then 2 else 0)
        + (if list_ex (\<lambda>c. c \<in> set symbolClass) password then 3 else 0)
        + (if kw \<noteq> [] \<and> includes_str (toLowerCase password) (toLowerCase kw)
           then min 3 (int (length kw)) else 0)
        - (if testRepeats password then 3 else 0)
        - (if testSequences password then 2 else 0)
        - (if length password < 8 then 10 else 0)))"
proof -
  have a: "analysis (calculatePasswordStrength password opts kw) = analyse password kw"
    by (simp add: calculatePasswordStrength_def Let_def)
  have "keywordLength (analyse password kw) = length kw"
    and "hasKeyword (analyse password kw)
       = (if kw = [] then JString []
          else JBoolean (includes_str (toLowerCase password) (toLowerCase kw)))"
    and "truthy (hasKeyword (analyse password kw))
       = (kw \<noteq> [] \<and> includes_str (toLowerCase password) (toLowerCase kw))"
    by (simp_all add: analyse_def)
  then show ?thesis unfolding a by (intro conjI score_formula)
qed

theorem calculatePasswordStrength_raw_keyword_witness:
  "keywordLength (analysis (calculatePasswordStrength ''zz#a!zzzz''
      \<lparr>useLower = True, useUpper = False, useNumber = False, useSymbol = True\<rparr> ''a!'')) = 2
   \<and> hasKeyword (analysis (calculatePasswordStrength ''zz#a!zzzz''
      \<lparr>useLower = True, useUpper = False, useNumber = False, useSymbol = True\<rparr> ''a!''))
       = JBoolean True
   \<and> processedKeyword 9 ''a!'' = ''a''"
proof -
  have p: "processedKeyword 9 ''a!'' = ''a''" by code_simp
  have i: "includes_str (toLowerCase ''zz#a!zzzz'') (toLowerCase ''a!'')" by code_simp
  from calculatePasswordStrength_raw_keyword [of "''zz#a!zzzz''"
      "\<lparr>useLower = True, useUpper = False, useNumber = False, useSymbol = True\<rparr>" "''a!''"]
  have "keywordLength (analysis (calculatePasswordStrength ''zz#a!zzzz''
      \<lparr>useLower = True, useUpper = False, useNumber = False, useSymbol = True\<rparr> ''a!''))
      = length ''a!''"
    and "hasKeyword (analysis (calculatePasswordStrength ''zz#a!zzzz''
      \<lparr>useLower = True, useUpper = False, useNumber = False, useSymbol = True\<rparr> ''a!''))
       = (if ''a!'' = [] then JString []
          else JBoolean (includes_str (toLowerCase ''zz#a!zzzz'') (toLowerCase ''a!'')))"
    by blast+
  with p i show ?thesis by simp
qed

end
